theory Spec2Isabelle
  imports Complex_Main
begin

section \<open>The inertial buffer and the preintegrator (src/auv/vio/imu\_manager.cpp)\<close>

subsection \<open>Data model\<close>

text \<open>
  \<^verbatim>\<open>seconds_t\<close> is a \<^verbatim>\<open>double\<close>. Times in seconds are modelled as reals: the
  comparisons, the subtraction and \<^verbatim>\<open>std::fabs\<close> of the source are those of the reals
  (no rounding, no NaN). \<^verbatim>\<open>timestamp_t\<close> is an unsigned tick count; the source does no
  arithmetic on it: it converts it to seconds with \<^verbatim>\<open>ConvertToSeconds\<close> (lines 49-77), and
  line 106 compares it with a \<^verbatim>\<open>double\<close>, which converts it to \<^verbatim>\<open>double\<close>.
\<close>

type_synonym seconds_t = real
type_synonym timestamp_t = nat
type_synonym Vector3d = "real \<times> real \<times> real"

text \<open>
  core/timestamp.hpp is not among the sources. What imu\_manager.cpp uses of it is taken
  as a parameter: the conversion \<^verbatim>\<open>ConvertToSeconds\<close> and the two sentinel constants
  \<^verbatim>\<open>kMinSeconds\<close> and \<^verbatim>\<open>kMaxSeconds\<close>.
\<close>

record timebase =
  ConvertToSeconds :: "timestamp_t \<Rightarrow> seconds_t"
  kMinSeconds :: seconds_t
  kMaxSeconds :: seconds_t

text \<open>\<^verbatim>\<open>ImuMeasurement\<close>: the fields \<^verbatim>\<open>timestamp\<close>, \<^verbatim>\<open>w\<close> and \<^verbatim>\<open>a\<close> that the source reads.\<close>

record ImuMeasurement =
  timestamp :: timestamp_t
  imu_w :: Vector3d
  imu_a :: Vector3d

text \<open>\<^verbatim>\<open>ImuBias\<close>: accelerometer and gyroscope bias.\<close>

type_synonym ImuBias = "Vector3d \<times> Vector3d"

definition zero_bias :: ImuBias where
  "zero_bias = ((0, 0, 0), (0, 0, 0))"

text \<open>
  \<^verbatim>\<open>PimC\<close> is gtsam's \<^verbatim>\<open>PreintegratedCombinedMeasurements\<close>, an external library. Its
  accumulated increments and covariance are a function of the bias and of the sequence of
  \<^verbatim>\<open>integrateMeasurement(a, w, dt)\<close> calls since the last reset, so the accumulator is
  represented by exactly these. It is at identity/zero when no measurement has been
  integrated since the last reset. (gtsam rejects \<open>dt \<le> 0\<close>; every call of the source is
  guarded by \<open>dt > 0\<close>.)
\<close>

record PimC =
  bias :: ImuBias
  steps :: "(Vector3d \<times> Vector3d \<times> real) list"

definition PimC_default :: PimC where
  "PimC_default = \<lparr>bias = zero_bias, steps = []\<rparr>"

definition integrateMeasurement :: "Vector3d \<Rightarrow> Vector3d \<Rightarrow> real \<Rightarrow> PimC \<Rightarrow> PimC" where
  "integrateMeasurement acc omega dt p = p\<lparr>steps := steps p @ [(acc, omega, dt)]\<rparr>"

definition resetIntegration :: "PimC \<Rightarrow> PimC" where
  "resetIntegration p = p\<lparr>steps := []\<rparr>"

definition resetIntegrationAndSetBias :: "ImuBias \<Rightarrow> PimC \<Rightarrow> PimC" where
  "resetIntegrationAndSetBias b p = p\<lparr>bias := b, steps := []\<rparr>"

definition is_zero :: "PimC \<Rightarrow> bool" where
  "is_zero p = (steps p = [])"

text \<open>
  \<^verbatim>\<open>PimResult\<close>, with its four fields in the order of the constructor calls of lines 44
  and 91: the validity flag, the earliest and the latest time covered, the accumulator.
\<close>

record PimResult =
  valid :: bool
  earliest_sec :: seconds_t
  latest_sec :: seconds_t
  pim :: PimC

text \<open>\<^verbatim>\<open>ImuManager::Params\<close>: the fields that the modelled functions read.\<close>

record Params =
  max_queue_size :: nat
  allowed_misalignment_sec :: real

text \<open>
  The members of \<^verbatim>\<open>ImuManager\<close>: \<^verbatim>\<open>params_\<close>, \<^verbatim>\<open>queue_\<close> (oldest sample first) and
  \<^verbatim>\<open>pim_\<close>. A name cannot end in an underscore here, and \<open>pim\<close> is the field of the
  result, so the accumulator \<^verbatim>\<open>pim_\<close> is \<open>pim_acc\<close>.
\<close>

record ImuManager =
  params :: Params
  queue :: "ImuMeasurement list"
  pim_acc :: PimC

subsection \<open>The queue\<close>

text \<open>
  \<^verbatim>\<open>ThreadsafeQueue\<close> (core/) is not among the sources; its operations follow section
  4.1 of the spec. The queue is the list of its samples, oldest first. A call that the
  spec leaves undefined is a value of type \<open>fault\<close>.
\<close>

datatype fault = PeekFront_on_empty | Pop_on_empty

text \<open>Modelled from the spec: \<^verbatim>\<open>ThreadsafeQueue::Empty\<close> is missing. "\<^verbatim>\<open>Empty()\<close> reports
  whether any samples remain."\<close>

definition Empty :: "'a list \<Rightarrow> bool" where
  "Empty q = (q = [])"

text \<open>Modelled from the spec: \<^verbatim>\<open>ThreadsafeQueue::PeekFront\<close> is missing. "\<^verbatim>\<open>PeekFront()\<close>
  returns the oldest retained sample without removing it; undefined/erroring if empty."\<close>

definition PeekFront :: "'a list \<Rightarrow> fault + 'a" where
  "PeekFront q = (case q of [] \<Rightarrow> Inl PeekFront_on_empty | x # _ \<Rightarrow> Inr x)"

text \<open>Modelled from the spec: \<^verbatim>\<open>ThreadsafeQueue::Pop\<close> is missing. "\<^verbatim>\<open>Pop()\<close> removes and
  returns the oldest sample." The spec does not say what it does on the empty queue; the
  callers below never reach that case.\<close>

definition Pop :: "'a list \<Rightarrow> fault + ('a \<times> 'a list)" where
  "Pop q = (case q of [] \<Rightarrow> Inl Pop_on_empty | x # xs \<Rightarrow> Inr (x, xs))"

text \<open>Modelled from the spec: \<^verbatim>\<open>ThreadsafeQueue::Push\<close> is missing. "\<^verbatim>\<open>Push(sample)\<close>
  appends to the tail. Capacity is bounded; when full, the oldest sample is evicted on
  push."\<close>

definition queue_Push :: "nat \<Rightarrow> 'a \<Rightarrow> 'a list \<Rightarrow> 'a list" where
  "queue_Push cap x q = (if cap \<le> length q then tl q @ [x] else q @ [x])"

subsection \<open>The constructor, Push, ResetAndUpdateBias, DiscardBefore\<close>

text \<open>Lines 7-30: an empty queue and an accumulator with zero bias. The noise model is
  not read by the functions below.\<close>

definition ImuManager_init :: "Params \<Rightarrow> ImuManager" where
  "ImuManager_init P = \<lparr>params = P, queue = [], pim_acc = \<lparr>bias = zero_bias, steps = []\<rparr>\<rparr>"

definition Push :: "ImuMeasurement \<Rightarrow> ImuManager \<Rightarrow> ImuManager" where
  "Push imu s = s\<lparr>queue := queue_Push (max_queue_size (params s)) imu (queue s)\<rparr>"

definition ResetAndUpdateBias :: "ImuBias \<Rightarrow> ImuManager \<Rightarrow> ImuManager" where
  "ResetAndUpdateBias b s = s\<lparr>pim_acc := resetIntegrationAndSetBias b (pim_acc s)\<rparr>"

text \<open>
  The conversion of an unsigned 64-bit tick count to \<^verbatim>\<open>double\<close>, which the comparison
  of line 106 applies to the \<^verbatim>\<open>timestamp\<close> field: the nearest value with a significand
  of 53 bits, ties to the even significand (the default rounding mode). A count below
  \<open>2\<^sup>5\<^sup>3\<close> is kept as it is; above, \<open>significand_shift\<close> is the number of low bits that
  the significand cannot hold.
\<close>

function significand_shift :: "nat \<Rightarrow> nat" where
  "significand_shift n = (if n < 2 ^ 53 then 0 else Suc (significand_shift (n div 2)))"
  by pat_completeness auto
termination
  by (relation "measure (\<lambda>n. n)") auto

definition double_of_ticks :: "timestamp_t \<Rightarrow> real" where
  "double_of_ticks n =
     (let e = significand_shift n;
          q = n div 2 ^ e;
          r = n mod 2 ^ e;
          q' = (if 2 ^ e < 2 * r \<or> (2 * r = 2 ^ e \<and> odd q) then q + 1 else q)
      in real (q' * 2 ^ e))"

text \<open>
  The loop of \<^verbatim>\<open>DiscardBefore\<close> (lines 106-108). The source compares the
  \<^verbatim>\<open>timestamp\<close> field itself with \<^verbatim>\<open>time\<close>, without \<^verbatim>\<open>ConvertToSeconds\<close>: the
  tick count is converted to \<^verbatim>\<open>double\<close> by the comparison.
\<close>

function DiscardBefore_loop :: "seconds_t \<Rightarrow> ImuMeasurement list \<Rightarrow> fault + ImuMeasurement list" where
  "DiscardBefore_loop time q =
     (if \<not> Empty q then
        (case PeekFront q of
           Inl e \<Rightarrow> Inl e
         | Inr front \<Rightarrow>
             if double_of_ticks (timestamp front) < time then
               (case Pop q of
                  Inl e \<Rightarrow> Inl e
                | Inr (popped, q') \<Rightarrow> DiscardBefore_loop time q')
             else Inr q)
      else Inr q)"
  by pat_completeness auto
termination
  by (relation "measure (\<lambda>(time, q). length q)")
     (auto simp: Pop_def split: list.splits)

definition DiscardBefore :: "seconds_t \<Rightarrow> ImuManager \<Rightarrow> fault + ImuManager" where
  "DiscardBefore time s =
     (case DiscardBefore_loop time (queue s) of
        Inl e \<Rightarrow> Inl e
      | Inr q' \<Rightarrow> Inr (s\<lparr>queue := q'\<rparr>))"

subsection \<open>Preintegrate\<close>

text \<open>
  Lines 48-51: the first \<^verbatim>\<open>Pop\<close> has been done by the caller; the loop peeks the front
  without asking whether the queue is empty.
\<close>

function anchor_loop ::
  "timebase \<Rightarrow> seconds_t \<Rightarrow> ImuMeasurement \<Rightarrow> ImuMeasurement list
     \<Rightarrow> fault + (ImuMeasurement \<times> ImuMeasurement list)" where
  "anchor_loop c from_time imu q =
     (case PeekFront q of
        Inl e \<Rightarrow> Inl e
      | Inr front \<Rightarrow>
          if ConvertToSeconds c (timestamp front) \<le> from_time then
            (case Pop q of
               Inl e \<Rightarrow> Inl e
             | Inr (imu', q') \<Rightarrow> anchor_loop c from_time imu' q')
          else Inr (imu, q))"
  by pat_completeness auto
termination
  by (relation "measure (\<lambda>(c, from_time, imu, q). length q)")
     (auto simp: Pop_def split: list.splits)

text \<open>Lines 69-75: the loop state is \<^verbatim>\<open>imu\<close>, \<^verbatim>\<open>last_imu_time_sec\<close>, the queue and \<^verbatim>\<open>pim_\<close>.\<close>

function integrate_loop ::
  "timebase \<Rightarrow> seconds_t \<Rightarrow> ImuMeasurement \<Rightarrow> seconds_t \<Rightarrow> ImuMeasurement list \<Rightarrow> PimC
     \<Rightarrow> fault + (ImuMeasurement \<times> ImuMeasurement list \<times> PimC)" where
  "integrate_loop c to_time imu last_imu_time_sec q p =
     (if \<not> Empty q then
        (case PeekFront q of
           Inl e \<Rightarrow> Inl e
         | Inr front \<Rightarrow>
             if ConvertToSeconds c (timestamp front) < to_time then
               (case Pop q of
                  Inl e \<Rightarrow> Inl e
                | Inr (imu', q') \<Rightarrow>
                    let dt = ConvertToSeconds c (timestamp imu') - last_imu_time_sec;
                        p' = (if dt > 0 then integrateMeasurement (imu_a imu') (imu_w imu') dt p else p)
                    in integrate_loop c to_time imu' (ConvertToSeconds c (timestamp imu')) q' p')
             else Inr (imu, q, p))
      else Inr (imu, q, p))"
  by pat_completeness auto
termination
  by (relation "measure (\<lambda>(c, to_time, imu, t0, q, p). length q)")
     (auto simp: Pop_def split: list.splits)

text \<open>The return statement taken (lines 44, 58, 83 and 94); the source returns only the result.\<close>

datatype exit = EmptyBuffer | StartMisaligned | EndMisaligned | Success

text \<open>\<^verbatim>\<open>PimResult(false, kMinSeconds, kMaxSeconds, PimC())\<close>, the result of lines 44, 58 and 83.\<close>

definition invalid_result :: "timebase \<Rightarrow> PimResult" where
  "invalid_result c =
     \<lparr>valid = False, earliest_sec = kMinSeconds c, latest_sec = kMaxSeconds c, pim = PimC_default\<rparr>"

text \<open>Line 56, and lines 57-66: \<open>None\<close> is the return of line 58.\<close>

definition offset_from_sec :: "timebase \<Rightarrow> seconds_t \<Rightarrow> ImuMeasurement \<Rightarrow> real" where
  "offset_from_sec c from_time imu =
     (if from_time \<noteq> kMinSeconds c then \<bar>ConvertToSeconds c (timestamp imu) - from_time\<bar> else 0)"

definition start_step ::
  "timebase \<Rightarrow> Params \<Rightarrow> seconds_t \<Rightarrow> ImuMeasurement \<Rightarrow> PimC \<Rightarrow> PimC option" where
  "start_step c P from_time imu p =
     (if offset_from_sec c from_time imu > allowed_misalignment_sec P then None
      else if offset_from_sec c from_time imu > 0
        then Some (integrateMeasurement (imu_a imu) (imu_w imu) (offset_from_sec c from_time imu) p)
        else Some p)"

text \<open>Line 80.\<close>

definition offset_to_sec :: "timebase \<Rightarrow> seconds_t \<Rightarrow> ImuMeasurement \<Rightarrow> real" where
  "offset_to_sec c to_time imu =
     (if to_time \<noteq> kMaxSeconds c then \<bar>ConvertToSeconds c (timestamp imu) - to_time\<bar> else 0)"

text \<open>
  Lines 40-95. A call ends in a fault of the queue (\<open>Inl\<close>) or returns (\<open>Inr\<close>): the
  return statement taken, the result, and the manager after the call.
\<close>

definition Preintegrate ::
  "timebase \<Rightarrow> seconds_t \<Rightarrow> seconds_t \<Rightarrow> ImuManager \<Rightarrow> fault + (exit \<times> PimResult \<times> ImuManager)" where
  "Preintegrate c from_time to_time s =
     (if Empty (queue s) then Inr (EmptyBuffer, invalid_result c, s)  \<comment> \<open>lines 43-45\<close>
      else
        case Pop (queue s) of  \<comment> \<open>line 48\<close>
          Inl e \<Rightarrow> Inl e
        | Inr (imu0, q0) \<Rightarrow>
            (case anchor_loop c from_time imu0 q0 of  \<comment> \<open>lines 49-51\<close>
               Inl e \<Rightarrow> Inl e
             | Inr (imu, q1) \<Rightarrow>
                 (case start_step c (params s) from_time imu (pim_acc s) of  \<comment> \<open>lines 56-66\<close>
                    None \<Rightarrow> Inr (StartMisaligned, invalid_result c, s\<lparr>queue := q1\<rparr>)
                  | Some p1 \<Rightarrow>
                      (case integrate_loop c to_time imu (ConvertToSeconds c (timestamp imu)) q1 p1 of
                           \<comment> \<open>lines 69-75\<close>
                         Inl e \<Rightarrow> Inl e
                       | Inr (imu', q2, p2) \<Rightarrow>
                           if offset_to_sec c to_time imu' > allowed_misalignment_sec (params s)
                             \<comment> \<open>lines 80-84\<close>
                           then Inr (EndMisaligned, invalid_result c,
                                     s\<lparr>queue := q2, pim_acc := resetIntegration p2\<rparr>)
                           else
                             let p3 = (if offset_to_sec c to_time imu' > 0
                                       then integrateMeasurement (imu_a imu') (imu_w imu')
                                              (offset_to_sec c to_time imu') p2
                                       else p2)  \<comment> \<open>lines 87-89\<close>
                             in Inr (Success,  \<comment> \<open>lines 91-94\<close>
                                     \<lparr>valid = True,
                                      earliest_sec = ConvertToSeconds c (timestamp imu),
                                      latest_sec = ConvertToSeconds c (timestamp imu'),
                                      pim = p3\<rparr>,
                                     s\<lparr>queue := q2, pim_acc := resetIntegration p3\<rparr>)))))"

text \<open>The states of a manager that its public operations reach, for the calls that return.\<close>

inductive reachable :: "timebase \<Rightarrow> ImuManager \<Rightarrow> bool" for c :: timebase where
  constructed: "reachable c (ImuManager_init P)"
| pushed: "reachable c s \<Longrightarrow> reachable c (Push imu s)"
| preintegrated:
    "reachable c s \<Longrightarrow> Preintegrate c from_time to_time s = Inr (e, r, s') \<Longrightarrow> reachable c s'"
| bias_updated: "reachable c s \<Longrightarrow> reachable c (ResetAndUpdateBias b s)"
| discarded: "reachable c s \<Longrightarrow> DiscardBefore time s = Inr s' \<Longrightarrow> reachable c s'"

subsection \<open>Concrete inputs for evaluation\<close>

text \<open>
  A time base with nanosecond ticks. The window bounds used below differ from both
  sentinels, except where a bound is set to the sentinel on purpose; the sample times
  are after \<open>kMinSeconds\<close> and before \<open>kMaxSeconds\<close>.
\<close>

definition ns_timebase :: timebase where
  "ns_timebase =
     \<lparr>ConvertToSeconds = (\<lambda>t. real t / 1000000000), kMinSeconds = 0, kMaxSeconds = 1000000000000\<rparr>"

definition sample_at :: "timestamp_t \<Rightarrow> ImuMeasurement" where
  "sample_at t = \<lparr>timestamp = t, imu_w = (0, 0, 0), imu_a = (0, 0, 1)\<rparr>"

definition manager :: "real \<Rightarrow> ImuMeasurement list \<Rightarrow> PimC \<Rightarrow> ImuManager" where
  "manager tol q p =
     \<lparr>params = \<lparr>max_queue_size = 1000, allowed_misalignment_sec = tol\<rparr>, queue = q, pim_acc = p\<rparr>"

section \<open>The Levenberg-Marquardt pose optimizer\<close>

text \<open>
  Modelled from the spec: \<^verbatim>\<open>OptimizePoseLevenbergMarquardt\<close> (vo/optimization.cpp) is not
  among the sources, only its test is. What section 4.3 leaves open is a field of the
  problem: the pose type \<open>'p\<close>, the total weighted squared reprojection error of a pose,
  the pose proposed from a pose for a damping factor (linearise, add the damping to the
  diagonal of the normal equations, solve, compose the increment onto the pose), how the
  damping is decreased and increased, and whether a step that leaves the error equal is
  accepted. The thresholds are the arguments of the call. Errors are reals.
\<close>

record 'p lm_problem =
  total_error :: "'p \<Rightarrow> real"
  propose :: "real \<Rightarrow> 'p \<Rightarrow> 'p"
  decrease_damping :: "real \<Rightarrow> real"
  increase_damping :: "real \<Rightarrow> real"
  accept_equal :: bool
  max_iters :: nat
  min_error :: real
  min_error_delta :: real

text \<open>Modelled from the spec: the state of the iteration, the current pose, the damping
  factor and the number of iterations performed.\<close>

record 'p lm_state =
  pose :: 'p
  damping :: real
  iters :: nat

text \<open>
  Modelled from the spec: "if it reduces total error, the step is accepted; if it
  increases error, the step is rejected".
\<close>

definition accepts :: "'p lm_problem \<Rightarrow> 'p \<Rightarrow> 'p \<Rightarrow> bool" where
  "accepts P old new =
     (total_error P new < total_error P old
      \<or> (accept_equal P \<and> total_error P new = total_error P old))"

text \<open>
  Modelled from the spec: the iteration loop, as the list of the states it goes through.
  An accepted step updates the pose and decreases the damping; a rejected step leaves the
  pose unchanged, increases the damping, and the iteration is retried. The loop ends when
  the iteration count reaches \<open>max_iters\<close>, or after an accepted step when the total error
  is below \<open>min_error\<close> or the absolute decrease in error is below \<open>min_error_delta\<close>.
\<close>

function lm_trace :: "'p lm_problem \<Rightarrow> 'p lm_state \<Rightarrow> 'p lm_state list" where
  "lm_trace P st =
     (if max_iters P \<le> iters st then [st]
      else
        let candidate = propose P (damping st) (pose st) in
        if accepts P (pose st) candidate then
          let st' = \<lparr>pose = candidate, damping = decrease_damping P (damping st),
                     iters = iters st + 1\<rparr> in
          if total_error P candidate < min_error P
             \<or> \<bar>total_error P (pose st) - total_error P candidate\<bar> < min_error_delta P
          then [st, st']
          else st # lm_trace P st'
        else
          st # lm_trace P \<lparr>pose = pose st, damping = increase_damping P (damping st),
                            iters = iters st + 1\<rparr>)"
  by pat_completeness auto
termination
  by (relation "measure (\<lambda>(P, st). max_iters P - iters st)") auto

text \<open>
  Modelled from the spec: the call, from an initial pose and an initial damping factor; it
  gives back the final pose, its total error and the number of iterations performed.
\<close>

definition OptimizePoseLevenbergMarquardt :: "'p lm_problem \<Rightarrow> 'p \<Rightarrow> real \<Rightarrow> 'p \<times> real \<times> nat" where
  "OptimizePoseLevenbergMarquardt P pose0 damping0 =
     (let st = last (lm_trace P \<lparr>pose = pose0, damping = damping0, iters = 0\<rparr>)
      in (pose st, total_error P (pose st), iters st))"

text \<open>
  A one-dimensional problem for evaluation: the error of \<open>x\<close> is \<open>x\<^sup>2\<close>, and the proposed
  step overshoots when the damping is small.
\<close>

definition overshooting_problem :: "real lm_problem" where
  "overshooting_problem =
     \<lparr>total_error = (\<lambda>x. x * x), propose = (\<lambda>l x. x - 3 * x / (1 + l)),
      decrease_damping = (\<lambda>l. l / 2), increase_damping = (\<lambda>l. 2 * l + 1),
      accept_equal = False, max_iters = 3, min_error = 1 / 10000000,
      min_error_delta = 1 / 1000000000\<rparr>"

section \<open>Properties of the inertial buffer and the preintegrator\<close>

subsection \<open>The loops, by the shape of the queue\<close>

lemma anchor_loop_Nil: "anchor_loop c from_time imu [] = Inl PeekFront_on_empty"
  by (simp add: PeekFront_def)

lemma anchor_loop_Cons:
  "anchor_loop c from_time imu (x # xs) =
     (if ConvertToSeconds c (timestamp x) \<le> from_time then anchor_loop c from_time x xs
      else Inr (imu, x # xs))"
  by (simp add: PeekFront_def Pop_def)

lemma integrate_loop_Nil: "integrate_loop c to_time imu t0 [] p = Inr (imu, [], p)"
  by (simp add: Empty_def)

lemma integrate_loop_Cons:
  "integrate_loop c to_time imu t0 (x # xs) p =
     (if ConvertToSeconds c (timestamp x) < to_time then
        integrate_loop c to_time x (ConvertToSeconds c (timestamp x)) xs
          (if ConvertToSeconds c (timestamp x) - t0 > 0
           then integrateMeasurement (imu_a x) (imu_w x) (ConvertToSeconds c (timestamp x) - t0) p
           else p)
      else Inr (imu, x # xs, p))"
  by (simp add: Empty_def PeekFront_def Pop_def Let_def)

declare significand_shift.simps [simp del]

lemma double_of_ticks_exact: "n < 2 ^ 53 \<Longrightarrow> double_of_ticks n = real n"
  by (simp add: double_of_ticks_def significand_shift.simps [of n])

lemma DiscardBefore_loop_Nil: "DiscardBefore_loop time [] = Inr []"
  by (simp add: Empty_def)

lemma DiscardBefore_loop_Cons:
  "DiscardBefore_loop time (x # xs) =
     (if double_of_ticks (timestamp x) < time then DiscardBefore_loop time xs else Inr (x # xs))"
  by (simp add: Empty_def PeekFront_def Pop_def)

declare anchor_loop.simps [simp del]
declare integrate_loop.simps [simp del]
declare DiscardBefore_loop.simps [simp del]

subsection \<open>What the loops pop\<close>

text \<open>
  The anchor search returns only with a sample left in the queue whose time is after
  \<open>from_time\<close>; what it dropped and the anchor are a prefix of the queue it started on.
\<close>

lemma anchor_loop_split:
  "anchor_loop c from_time imu q = Inr (anchor, q1) \<Longrightarrow>
     \<exists>pre. imu # q = pre @ anchor # q1 \<and> q1 \<noteq> [] \<and> from_time < ConvertToSeconds c (timestamp (hd q1))"
proof (induction q arbitrary: imu)
  case Nil
  then show ?case by (simp add: anchor_loop_Nil)
next
  case (Cons x xs)
  show ?case
  proof (cases "ConvertToSeconds c (timestamp x) \<le> from_time")
    case True
    with Cons.prems have "anchor_loop c from_time x xs = Inr (anchor, q1)"
      by (simp add: anchor_loop_Cons)
    from Cons.IH [OF this] obtain pre where
      "x # xs = pre @ anchor # q1" "q1 \<noteq> []" "from_time < ConvertToSeconds c (timestamp (hd q1))"
      by blast
    then have "imu # x # xs = (imu # pre) @ anchor # q1" by simp
    with \<open>q1 \<noteq> []\<close> \<open>from_time < ConvertToSeconds c (timestamp (hd q1))\<close> show ?thesis by blast
  next
    case False
    with Cons.prems have "anchor = imu" "q1 = x # xs"
      by (simp_all add: anchor_loop_Cons)
    with False show ?thesis by auto
  qed
qed

lemma anchor_loop_returns:
  "\<exists>y\<in>set q. from_time < ConvertToSeconds c (timestamp y) \<Longrightarrow>
     \<exists>anchor q1. anchor_loop c from_time imu q = Inr (anchor, q1)"
  by (induction q arbitrary: imu) (auto simp: anchor_loop_Cons)

lemma anchor_loop_faults:
  "\<forall>y\<in>set q. ConvertToSeconds c (timestamp y) \<le> from_time \<Longrightarrow>
     anchor_loop c from_time imu q = Inl PeekFront_on_empty"
  by (induction q arbitrary: imu) (auto simp: anchor_loop_Cons anchor_loop_Nil)

text \<open>
  The integration loop always returns: it pops a prefix of samples before \<open>to_time\<close>,
  and stops on the empty queue or on a front sample at or after \<open>to_time\<close>.
\<close>

lemma integrate_loop_split:
  "\<exists>imu' mid q2 p2. integrate_loop c to_time imu t0 q p = Inr (imu', q2, p2)
      \<and> q = mid @ q2 \<and> (\<forall>x\<in>set mid. ConvertToSeconds c (timestamp x) < to_time)
      \<and> (q2 = [] \<or> to_time \<le> ConvertToSeconds c (timestamp (hd q2)))
      \<and> imu' = last (imu # mid) \<and> bias p2 = bias p"
proof (induction q arbitrary: imu t0 p)
  case Nil
  show ?case by (simp add: integrate_loop_Nil)
next
  case (Cons x xs)
  show ?case
  proof (cases "ConvertToSeconds c (timestamp x) < to_time")
    case True
    let ?p' = "if ConvertToSeconds c (timestamp x) - t0 > 0
           then integrateMeasurement (imu_a x) (imu_w x) (ConvertToSeconds c (timestamp x) - t0) p
           else p"
    from Cons.IH [of x "ConvertToSeconds c (timestamp x)" ?p'] obtain imu' mid q2 p2 where
      h: "integrate_loop c to_time x (ConvertToSeconds c (timestamp x)) xs ?p' = Inr (imu', q2, p2)"
         "xs = mid @ q2" "\<forall>x\<in>set mid. ConvertToSeconds c (timestamp x) < to_time"
         "q2 = [] \<or> to_time \<le> ConvertToSeconds c (timestamp (hd q2))"
         "imu' = last (x # mid)" "bias p2 = bias ?p'"
      by blast
    have b: "bias ?p' = bias p" by (simp add: integrateMeasurement_def)
    from True h(1) have "integrate_loop c to_time imu t0 (x # xs) p = Inr (imu', q2, p2)"
      by (simp add: integrate_loop_Cons)
    moreover from h(2) have "x # xs = (x # mid) @ q2" by simp
    moreover from True h(3) have "\<forall>y\<in>set (x # mid). ConvertToSeconds c (timestamp y) < to_time" by simp
    moreover from h(5) have "imu' = last (imu # x # mid)" by simp
    ultimately show ?thesis using h(4) h(6) b by metis
  next
    case False
    then have "integrate_loop c to_time imu t0 (x # xs) p = Inr (imu, x # xs, p)"
      by (simp add: integrate_loop_Cons)
    with False show ?thesis by force
  qed
qed

lemma integrate_loop_bias:
  "integrate_loop c to_time imu t0 q p = Inr (imu', q2, p2) \<Longrightarrow> bias p2 = bias p"
  using integrate_loop_split [of c to_time imu t0 q p] by auto

lemma DiscardBefore_loop_split:
  "\<exists>dropped q'. DiscardBefore_loop time q = Inr q' \<and> q = dropped @ q'
      \<and> (\<forall>x\<in>set dropped. double_of_ticks (timestamp x) < time)
      \<and> (q' = [] \<or> time \<le> double_of_ticks (timestamp (hd q')))"
proof (induction q)
  case Nil
  show ?case by (simp add: DiscardBefore_loop_Nil)
next
  case (Cons x xs)
  show ?case
  proof (cases "double_of_ticks (timestamp x) < time")
    case True
    from Cons.IH obtain dropped q' where
      h: "DiscardBefore_loop time xs = Inr q'" "xs = dropped @ q'"
         "\<forall>x\<in>set dropped. double_of_ticks (timestamp x) < time"
         "q' = [] \<or> time \<le> double_of_ticks (timestamp (hd q'))"
      by blast
    from True h(1) have "DiscardBefore_loop time (x # xs) = Inr q'"
      by (simp add: DiscardBefore_loop_Cons)
    moreover from h(2) have "x # xs = (x # dropped) @ q'" by simp
    moreover from True h(3) have "\<forall>y\<in>set (x # dropped). double_of_ticks (timestamp y) < time" by simp
    ultimately show ?thesis using h(4) by blast
  next
    case False
    then have "DiscardBefore_loop time (x # xs) = Inr (x # xs)"
      by (simp add: DiscardBefore_loop_Cons)
    with False show ?thesis by force
  qed
qed

lemma start_step_bias: "start_step c P from_time imu p = Some p1 \<Longrightarrow> bias p1 = bias p"
  by (auto simp: start_step_def integrateMeasurement_def split: if_splits)

lemma resetIntegration_bias: "bias p = bias p' \<Longrightarrow> resetIntegration p = resetIntegration p'"
  by (cases p, cases p') (simp add: resetIntegration_def)

lemma integrateMeasurement_neq: "integrateMeasurement acc omega dt p \<noteq> p"
proof
  assume "integrateMeasurement acc omega dt p = p"
  then have "steps (integrateMeasurement acc omega dt p) = steps p" by simp
  then show False by (simp add: integrateMeasurement_def)
qed

subsection \<open>The four returns of Preintegrate\<close>

lemma Preintegrate_Inr_cases [consumes 1, case_names empty start endm success]:
  assumes "Preintegrate c from_time to_time s = Inr (e, r, s')"
  obtains
    "queue s = []" "e = EmptyBuffer" "r = invalid_result c" "s' = s"
  | x xs anchor q1 where
      "queue s = x # xs" "anchor_loop c from_time x xs = Inr (anchor, q1)"
      "start_step c (params s) from_time anchor (pim_acc s) = None"
      "e = StartMisaligned" "r = invalid_result c" "s' = s\<lparr>queue := q1\<rparr>"
  | x xs anchor q1 p1 imu' q2 p2 where
      "queue s = x # xs" "anchor_loop c from_time x xs = Inr (anchor, q1)"
      "start_step c (params s) from_time anchor (pim_acc s) = Some p1"
      "integrate_loop c to_time anchor (ConvertToSeconds c (timestamp anchor)) q1 p1 = Inr (imu', q2, p2)"
      "offset_to_sec c to_time imu' > allowed_misalignment_sec (params s)"
      "e = EndMisaligned" "r = invalid_result c"
      "s' = s\<lparr>queue := q2, pim_acc := resetIntegration p2\<rparr>"
  | x xs anchor q1 p1 imu' q2 p2 p3 where
      "queue s = x # xs" "anchor_loop c from_time x xs = Inr (anchor, q1)"
      "start_step c (params s) from_time anchor (pim_acc s) = Some p1"
      "integrate_loop c to_time anchor (ConvertToSeconds c (timestamp anchor)) q1 p1 = Inr (imu', q2, p2)"
      "\<not> offset_to_sec c to_time imu' > allowed_misalignment_sec (params s)"
      "p3 = (if offset_to_sec c to_time imu' > 0
             then integrateMeasurement (imu_a imu') (imu_w imu') (offset_to_sec c to_time imu') p2
             else p2)"
      "e = Success"
      "r = \<lparr>valid = True, earliest_sec = ConvertToSeconds c (timestamp anchor),
            latest_sec = ConvertToSeconds c (timestamp imu'), pim = p3\<rparr>"
      "s' = s\<lparr>queue := q2, pim_acc := resetIntegration p3\<rparr>"
proof (cases "queue s")
  case Nil
  with assms have "e = EmptyBuffer" "r = invalid_result c" "s' = s"
    by (simp_all add: Preintegrate_def Empty_def)
  with Nil show ?thesis by (rule that(1))
next
  case (Cons x xs)
  with assms obtain anchor q1 where a: "anchor_loop c from_time x xs = Inr (anchor, q1)"
    by (auto simp: Preintegrate_def Empty_def Pop_def split: sum.splits)
  show ?thesis
  proof (cases "start_step c (params s) from_time anchor (pim_acc s)")
    case None
    with assms Cons a have "e = StartMisaligned" "r = invalid_result c" "s' = s\<lparr>queue := q1\<rparr>"
      by (simp_all add: Preintegrate_def Empty_def Pop_def)
    with Cons a None show ?thesis by (rule that(2))
  next
    case (Some p1)
    with assms Cons a obtain imu' q2 p2 where
      l: "integrate_loop c to_time anchor (ConvertToSeconds c (timestamp anchor)) q1 p1 = Inr (imu', q2, p2)"
      by (auto simp: Preintegrate_def Empty_def Pop_def split: sum.splits)
    show ?thesis
    proof (cases "offset_to_sec c to_time imu' > allowed_misalignment_sec (params s)")
      case True
      with assms Cons a Some l have "e = EndMisaligned" "r = invalid_result c"
        "s' = s\<lparr>queue := q2, pim_acc := resetIntegration p2\<rparr>"
        by (simp_all add: Preintegrate_def Empty_def Pop_def)
      with Cons a Some l True show ?thesis by (rule that(3))
    next
      case False
      define p3 where "p3 = (if offset_to_sec c to_time imu' > 0
             then integrateMeasurement (imu_a imu') (imu_w imu') (offset_to_sec c to_time imu') p2
             else p2)"
      from assms Cons a Some l False have "e = Success"
        "r = \<lparr>valid = True, earliest_sec = ConvertToSeconds c (timestamp anchor),
            latest_sec = ConvertToSeconds c (timestamp imu'), pim = p3\<rparr>"
        "s' = s\<lparr>queue := q2, pim_acc := resetIntegration p3\<rparr>"
        unfolding p3_def
        by (simp_all add: Preintegrate_def Empty_def Pop_def Let_def)
      with Cons a Some l False p3_def show ?thesis by (rule that(4))
    qed
  qed
qed

text \<open>
  When the call returns and when it does not: it peeks the empty queue exactly when the
  buffer is not empty and no sample behind its first one is after \<open>from_time\<close>.
\<close>

lemma Preintegrate_faults:
  assumes "queue s = x # xs" "\<forall>y\<in>set xs. ConvertToSeconds c (timestamp y) \<le> from_time"
  shows "Preintegrate c from_time to_time s = Inl PeekFront_on_empty"
  using assms anchor_loop_faults [of xs c from_time x]
  by (simp add: Preintegrate_def Empty_def Pop_def)

lemma Preintegrate_returns:
  assumes "queue s = [] \<or> (\<exists>y\<in>set (tl (queue s)). from_time < ConvertToSeconds c (timestamp y))"
  shows "\<exists>e r s'. Preintegrate c from_time to_time s = Inr (e, r, s')"
proof (cases "queue s")
  case Nil
  then show ?thesis by (simp add: Preintegrate_def Empty_def)
next
  case (Cons x xs)
  with assms obtain anchor q1 where a: "anchor_loop c from_time x xs = Inr (anchor, q1)"
    using anchor_loop_returns [of xs from_time c x] by auto
  obtain imu' q2 p2 where
    "integrate_loop c to_time anchor (ConvertToSeconds c (timestamp anchor)) q1
        (the (start_step c (params s) from_time anchor (pim_acc s))) = Inr (imu', q2, p2)"
    using integrate_loop_split by blast
  with Cons a show ?thesis
    by (cases "start_step c (params s) from_time anchor (pim_acc s)")
       (simp_all add: Preintegrate_def Empty_def Pop_def Let_def)
qed

text \<open>
  When every sample of the buffer is further than the tolerance from a concrete bound, a
  call that returns, returns an invalid result; the accumulator stays at zero.
\<close>

lemma Preintegrate_misaligned_invalid:
  assumes ret: "Preintegrate c from_time to_time s = Inr (e, r, s')"
    and far: "(from_time \<noteq> kMinSeconds c
                \<and> (\<forall>x\<in>set (queue s). allowed_misalignment_sec (params s)
                       < \<bar>ConvertToSeconds c (timestamp x) - from_time\<bar>))
              \<or> (to_time \<noteq> kMaxSeconds c
                \<and> (\<forall>x\<in>set (queue s). allowed_misalignment_sec (params s)
                       < \<bar>ConvertToSeconds c (timestamp x) - to_time\<bar>))"
    and zero: "is_zero (pim_acc s)"
  shows "\<not> valid r \<and> is_zero (pim_acc s')"
  using ret
proof (cases rule: Preintegrate_Inr_cases)
  case empty
  with zero show ?thesis by (simp add: invalid_result_def)
next
  case (start x xs anchor q1)
  with zero show ?thesis by (simp add: invalid_result_def)
next
  case (endm x xs anchor q1 p1 imu' q2 p2)
  then show ?thesis by (simp add: invalid_result_def is_zero_def resetIntegration_def)
next
  case (success x xs anchor q1 p1 imu' q2 p2 p3)
  from anchor_loop_split [OF success(2)] obtain pre where
    pre: "x # xs = pre @ anchor # q1" by blast
  from integrate_loop_split [of c to_time anchor "ConvertToSeconds c (timestamp anchor)" q1 p1] success(4)
  obtain mid where mid: "q1 = mid @ q2" "imu' = last (anchor # mid)"
    by auto
  have a_in: "anchor \<in> set (queue s)" using success(1) pre by simp
  have "imu' \<in> set (anchor # mid)" unfolding mid(2) by (rule last_in_set) simp
  then have i_in: "imu' \<in> set (queue s)" using success(1) pre mid(1) by auto
  from success(3) have
    "\<not> allowed_misalignment_sec (params s) < offset_from_sec c from_time anchor"
    by (auto simp: start_step_def split: if_splits)
  with a_in success(5) i_in far have False
    by (auto simp: offset_from_sec_def offset_to_sec_def split: if_splits)
  then show ?thesis ..
qed

text \<open>
  Between calls the accumulator is at zero: every operation that returns keeps it so.
\<close>

lemma Preintegrate_keeps_zero:
  assumes "Preintegrate c from_time to_time s = Inr (e, r, s')" "is_zero (pim_acc s)"
  shows "is_zero (pim_acc s')"
  using assms(1)
proof (cases rule: Preintegrate_Inr_cases)
  case empty
  with assms(2) show ?thesis by simp
next
  case (start x xs anchor q1)
  with assms(2) show ?thesis by simp
next
  case (endm x xs anchor q1 p1 imu' q2 p2)
  then show ?thesis by (simp add: is_zero_def resetIntegration_def)
next
  case (success x xs anchor q1 p1 imu' q2 p2 p3)
  then show ?thesis by (simp add: is_zero_def resetIntegration_def)
qed

lemma reachable_zero: "reachable c s \<Longrightarrow> is_zero (pim_acc s)"
proof (induction rule: reachable.induct)
  case (constructed P)
  show ?case by (simp add: ImuManager_init_def is_zero_def)
next
  case (pushed s imu)
  then show ?case by (simp add: Push_def)
next
  case (preintegrated s from_time to_time e r s')
  then show ?case using Preintegrate_keeps_zero by blast
next
  case (bias_updated s b)
  show ?case by (simp add: ResetAndUpdateBias_def resetIntegrationAndSetBias_def is_zero_def)
next
  case (discarded s time s')
  then show ?case by (auto simp: DiscardBefore_def split: sum.splits)
qed

subsection \<open>Calls on concrete buffers\<close>

lemmas eval_defs =
  Preintegrate_def Empty_def Pop_def anchor_loop_Cons anchor_loop_Nil integrate_loop_Cons
  integrate_loop_Nil start_step_def offset_from_sec_def offset_to_sec_def invalid_result_def
  integrateMeasurement_def resetIntegration_def manager_def ns_timebase_def sample_at_def
  PimC_default_def Let_def

lemma short_window_first_call:
  "Preintegrate ns_timebase (199/200) (201/200)
     (manager (1/20) [sample_at 1000000000, sample_at 1010000000, sample_at 1020000000] PimC_default)
   = Inr (Success,
          \<lparr>valid = True, earliest_sec = 1, latest_sec = 1,
           pim = \<lparr>bias = zero_bias,
                  steps = [((0, 0, 1), (0, 0, 0), 1/200), ((0, 0, 1), (0, 0, 0), 1/200)]\<rparr>\<rparr>,
          manager (1/20) [sample_at 1010000000, sample_at 1020000000] PimC_default)"
  by (simp add: eval_defs)

lemma short_window_second_call:
  "Preintegrate ns_timebase (199/200) (201/200)
     (manager (1/20) [sample_at 1010000000, sample_at 1020000000] PimC_default)
   = Inr (Success,
          \<lparr>valid = True, earliest_sec = 101/100, latest_sec = 101/100,
           pim = \<lparr>bias = zero_bias,
                  steps = [((0, 0, 1), (0, 0, 0), 3/200), ((0, 0, 1), (0, 0, 0), 1/200)]\<rparr>\<rparr>,
          manager (1/20) [sample_at 1020000000] PimC_default)"
  by (simp add: eval_defs)

lemma late_window_call:
  "Preintegrate ns_timebase (199/200) 2
     (manager (1/20) [sample_at 1000000000, sample_at 1010000000, sample_at 1020000000] PimC_default)
   = Inr (EndMisaligned, invalid_result ns_timebase, manager (1/20) [] PimC_default)"
  by (simp add: eval_defs)

lemma long_window_first_call:
  "Preintegrate ns_timebase (99/100) (111/100)
     (manager (1/20) [sample_at 1000000000, sample_at 1100000000, sample_at 1200000000,
                      sample_at 1300000000] PimC_default)
   = Inr (Success,
          \<lparr>valid = True, earliest_sec = 1, latest_sec = 11/10,
           pim = \<lparr>bias = zero_bias,
                  steps = [((0, 0, 1), (0, 0, 0), 1/100), ((0, 0, 1), (0, 0, 0), 1/10),
                           ((0, 0, 1), (0, 0, 0), 1/100)]\<rparr>\<rparr>,
          manager (1/20) [sample_at 1200000000, sample_at 1300000000] PimC_default)"
  by (simp add: eval_defs)

subsection \<open>The claims\<close>

text \<open>
  What each return does with the accumulator: the returns of lines 44 and 58 (empty
  buffer, start misalignment) leave it as it was on entry, the returns of lines 83 and 94
  (end misalignment, success) reset it and keep the bias.
\<close>

lemma Preintegrate_returns_accumulator:
  assumes "Preintegrate c from_time to_time s = Inr (e, r, s')"
  shows "pim_acc s' = (if e = EmptyBuffer \<or> e = StartMisaligned then pim_acc s
                       else resetIntegration (pim_acc s))
         \<and> (is_zero (pim_acc s) \<longrightarrow> is_zero (pim_acc s'))"
proof -
  have acc: "pim_acc s' = (if e = EmptyBuffer \<or> e = StartMisaligned then pim_acc s
                       else resetIntegration (pim_acc s))"
    using assms
  proof (cases rule: Preintegrate_Inr_cases)
    case empty
    then show ?thesis by simp
  next
    case (start x xs anchor q1)
    then show ?thesis by simp
  next
    case (endm x xs anchor q1 p1 imu' q2 p2)
    then have "bias p2 = bias (pim_acc s)"
      using start_step_bias integrate_loop_bias by metis
    then have "resetIntegration p2 = resetIntegration (pim_acc s)"
      by (rule resetIntegration_bias)
    with endm(6,8) show ?thesis by simp
  next
    case (success x xs anchor q1 p1 imu' q2 p2 p3)
    then have "bias p2 = bias (pim_acc s)"
      using start_step_bias integrate_loop_bias by metis
    with success(6) have "bias p3 = bias (pim_acc s)"
      by (simp add: integrateMeasurement_def)
    then have "resetIntegration p3 = resetIntegration (pim_acc s)"
      by (rule resetIntegration_bias)
    with success(7,9) show ?thesis by simp
  qed
  then show ?thesis by (auto simp: is_zero_def resetIntegration_def)
qed

lemma three_samples_reachable:
  "reachable c (manager (1/20) [x1, x2, x3] PimC_default)"
proof -
  have "manager (1/20) [x1, x2, x3] PimC_default
          = Push x3 (Push x2 (Push x1
              (ImuManager_init \<lparr>max_queue_size = 1000, allowed_misalignment_sec = 1/20\<rparr>)))"
    by (simp add: manager_def Push_def queue_Push_def ImuManager_init_def PimC_default_def)
  then show ?thesis
    by (simp only: reachable.constructed reachable.pushed)
qed

text \<open>
  Claim C1. The accumulator is written by the constructor, by \<open>ResetAndUpdateBias\<close> and
  in \<open>Preintegrate\<close> only, so its state on entry is that of a state the manager's
  operations reach. From every such state, and for every call to \<open>Preintegrate\<close> that
  returns, at any of the four returns (empty buffer, start misalignment, end
  misalignment, success), the accumulator is at zero when the call returns.
\<close>

theorem Preintegrate_leaves_zero:
  assumes "reachable c s" and "Preintegrate c from_time to_time s = Inr (e, r, s')"
  shows "is_zero (pim_acc s')"
  using assms(2) reachable_zero [OF assms(1)] by (rule Preintegrate_keeps_zero)

text \<open>
  Three pushes on a new manager, then a successful call, which integrates two steps and
  resets the accumulator.
\<close>

theorem Preintegrate_leaves_zero_witness:
  "reachable ns_timebase
     (manager (1/20) [sample_at 1000000000, sample_at 1010000000, sample_at 1020000000] PimC_default)
   \<and> Preintegrate ns_timebase (199/200) (201/200)
     (manager (1/20) [sample_at 1000000000, sample_at 1010000000, sample_at 1020000000] PimC_default)
   = Inr (Success,
          \<lparr>valid = True, earliest_sec = 1, latest_sec = 1,
           pim = \<lparr>bias = zero_bias,
                  steps = [((0, 0, 1), (0, 0, 0), 1/200), ((0, 0, 1), (0, 0, 0), 1/200)]\<rparr>\<rparr>,
          manager (1/20) [sample_at 1010000000, sample_at 1020000000] PimC_default)
   \<and> is_zero (pim_acc (manager (1/20) [sample_at 1010000000, sample_at 1020000000] PimC_default))"
  using Preintegrate_leaves_zero [OF three_samples_reachable short_window_first_call]
    three_samples_reachable short_window_first_call
  by simp

text \<open>
  What \<open>DiscardBefore(t)\<close> does ensure: it always returns, the buffer left is a suffix of
  the buffer on entry, and it is empty or the tick count of its front sample, converted to
  \<^verbatim>\<open>double\<close>, is at least \<open>t\<close>.
\<close>

lemma DiscardBefore_double_front:
  "\<exists>s' dropped. DiscardBefore time s = Inr s'
      \<and> s' = s\<lparr>queue := queue s'\<rparr>
      \<and> queue s = dropped @ queue s'
      \<and> (queue s' = [] \<or> time \<le> double_of_ticks (timestamp (hd (queue s'))))"
proof -
  from DiscardBefore_loop_split [of time "queue s"] obtain dropped q' where
    "DiscardBefore_loop time (queue s) = Inr q'" "queue s = dropped @ q'"
    "q' = [] \<or> time \<le> double_of_ticks (timestamp (hd q'))"
    by blast
  then show ?thesis by (simp add: DiscardBefore_def)
qed

text \<open>
  Claim C2, at the inputs where the code departs from it. \<open>t\<close> is a time in seconds, and
  line 106 compares the tick count of the front sample with it, where lines 49 and 70
  compare \<open>ConvertToSeconds\<close> of the tick count. With nanosecond ticks, the buffer holds one
  sample at 1 s and \<open>DiscardBefore(2.0)\<close> keeps it: the buffer is not empty and the time of
  its front sample is before \<open>t\<close>. Read on the tick counts themselves the claim fails too,
  by the conversion to \<^verbatim>\<open>double\<close>: the sample with tick count \<open>2\<^sup>5\<^sup>3 + 3\<close> is kept by
  \<open>DiscardBefore(2\<^sup>5\<^sup>3 + 4)\<close>.
\<close>

theorem DiscardBefore_keeps_earlier_sample:
  "DiscardBefore 2 (manager (1/20) [sample_at 1000000000] PimC_default)
     = Inr (manager (1/20) [sample_at 1000000000] PimC_default)
   \<and> ConvertToSeconds ns_timebase
         (timestamp (hd (queue (manager (1/20) [sample_at 1000000000] PimC_default)))) < 2
   \<and> DiscardBefore 9007199254740996 (manager (1/20) [sample_at 9007199254740995] PimC_default)
     = Inr (manager (1/20) [sample_at 9007199254740995] PimC_default)
   \<and> real (timestamp (hd (queue (manager (1/20) [sample_at 9007199254740995] PimC_default))))
       < 9007199254740996"
  by (simp add: DiscardBefore_def DiscardBefore_loop_Cons DiscardBefore_loop_Nil manager_def
        sample_at_def ns_timebase_def double_of_ticks_def significand_shift.simps Let_def)

text \<open>
  Claim C3, at the input where the code departs from it. The buffer holds one sample, at
  5 s; \<open>from_time\<close> is 1 s, a concrete bound, and the tolerance is 0.05 s. The only
  sample is 4 s away from the bound, so the claim asks for an invalid result. The call
  does not reach the check of line 57: the anchor search peeks the queue that the first
  \<open>Pop\<close> has emptied.
\<close>

theorem Preintegrate_misaligned_single_sample:
  "(1::real) \<noteq> kMinSeconds ns_timebase
   \<and> allowed_misalignment_sec (params (manager (1/20) [sample_at 5000000000] PimC_default))
       < \<bar>ConvertToSeconds ns_timebase (timestamp (sample_at 5000000000)) - 1\<bar>
   \<and> Preintegrate ns_timebase 1 2 (manager (1/20) [sample_at 5000000000] PimC_default)
       = Inl PeekFront_on_empty"
  by (simp add: eval_defs)

text \<open>
  Claim C4 (as amended). Lines 56-66, for an anchor sample that is not before
  \<open>from_time\<close>: the synthetic step (the anchor's readings, over the gap between
  \<open>from_time\<close> and the anchor's time) is integrated if and only if the anchor is strictly
  after \<open>from_time\<close>, \<open>from_time\<close> is not the sentinel \<open>kMinSeconds\<close>, and the gap is
  within the allowed misalignment.
\<close>

theorem start_step_performed:
  assumes "from_time \<le> ConvertToSeconds c (timestamp imu)"
  shows "start_step c P from_time imu p =
           Some (integrateMeasurement (imu_a imu) (imu_w imu)
                   (ConvertToSeconds c (timestamp imu) - from_time) p)
         \<longleftrightarrow>
           from_time < ConvertToSeconds c (timestamp imu)
           \<and> from_time \<noteq> kMinSeconds c
           \<and> ConvertToSeconds c (timestamp imu) - from_time \<le> allowed_misalignment_sec P"
proof -
  from assms have abs: "\<bar>ConvertToSeconds c (timestamp imu) - from_time\<bar>
      = ConvertToSeconds c (timestamp imu) - from_time" by simp
  have neq: "p \<noteq> integrateMeasurement (imu_a imu) (imu_w imu)
                   (ConvertToSeconds c (timestamp imu) - from_time) p"
    using integrateMeasurement_neq [of "imu_a imu" "imu_w imu" _ p] by metis
  show ?thesis
    using neq by (auto simp: start_step_def offset_from_sec_def abs)
qed

theorem start_step_performed_witness:
  "(1::real) \<le> ConvertToSeconds ns_timebase (timestamp (sample_at 1010000000))
   \<and> start_step ns_timebase \<lparr>max_queue_size = 1000, allowed_misalignment_sec = 1/20\<rparr> 1
        (sample_at 1010000000) PimC_default
      = Some (integrateMeasurement (0, 0, 1) (0, 0, 0) (1/100) PimC_default)
   \<and> (1::real) \<noteq> kMinSeconds ns_timebase"
  using start_step_performed [of 1 ns_timebase "sample_at 1010000000"
          "\<lparr>max_queue_size = 1000, allowed_misalignment_sec = 1/20\<rparr>" PimC_default]
  by (simp add: ns_timebase_def sample_at_def)

text \<open>
  Claim C4 as stated fails in both directions. An anchor at 5 s is strictly after
  \<open>from_time\<close> and no step is integrated, when \<open>from_time\<close> is the sentinel (the
  accumulator is unchanged) and when \<open>from_time\<close> is 1 s (the call returns at line 58).
  An anchor at 1 s is before \<open>from_time\<close> = 1.005 s and the step is integrated, over
  0.005 s; the last conjunct is a whole call with this anchor, on the window from 1.005 s
  to 1.015 s: the result starts at 1 s and its first step is the synthetic one.
\<close>

theorem start_step_performed_counterexample:
  "kMinSeconds ns_timebase < ConvertToSeconds ns_timebase (timestamp (sample_at 5000000000))
   \<and> start_step ns_timebase \<lparr>max_queue_size = 1000, allowed_misalignment_sec = 1/20\<rparr>
        (kMinSeconds ns_timebase) (sample_at 5000000000) PimC_default
      = Some PimC_default
   \<and> 1 < ConvertToSeconds ns_timebase (timestamp (sample_at 5000000000))
   \<and> start_step ns_timebase \<lparr>max_queue_size = 1000, allowed_misalignment_sec = 1/20\<rparr>
        1 (sample_at 5000000000) PimC_default
      = None
   \<and> ConvertToSeconds ns_timebase (timestamp (sample_at 1000000000)) < 201/200
   \<and> start_step ns_timebase \<lparr>max_queue_size = 1000, allowed_misalignment_sec = 1/20\<rparr>
        (201/200) (sample_at 1000000000) PimC_default
      = Some (integrateMeasurement (imu_a (sample_at 1000000000)) (imu_w (sample_at 1000000000))
                (1/200) PimC_default)
   \<and> Preintegrate ns_timebase (201/200) (203/200)
        (manager (1/20) [sample_at 1000000000, sample_at 1010000000, sample_at 1020000000] PimC_default)
      = Inr (Success,
             \<lparr>valid = True, earliest_sec = 1, latest_sec = 101/100,
              pim = \<lparr>bias = zero_bias,
                     steps = [((0, 0, 1), (0, 0, 0), 1/200), ((0, 0, 1), (0, 0, 0), 1/100),
                              ((0, 0, 1), (0, 0, 0), 1/200)]\<rparr>\<rparr>,
             manager (1/20) [sample_at 1020000000] PimC_default)"
  by (simp add: eval_defs)

text \<open>
  Claim C5. On an empty buffer, whatever the arguments, \<open>Preintegrate\<close> returns at
  line 44: the result is invalid, its two times are the sentinels \<open>kMinSeconds\<close> and
  \<open>kMaxSeconds\<close> (no sample time is claimed), it holds a fresh accumulator, and the
  manager is unchanged.
\<close>

theorem Preintegrate_empty_buffer:
  "queue s = [] \<Longrightarrow>
     Preintegrate c from_time to_time s =
       Inr (EmptyBuffer,
            \<lparr>valid = False, earliest_sec = kMinSeconds c, latest_sec = kMaxSeconds c, pim = PimC_default\<rparr>,
            s)"
  by (simp add: Preintegrate_def Empty_def invalid_result_def)

theorem Preintegrate_empty_buffer_witness:
  "queue (manager (1/20) [] PimC_default) = [] \<and>
   Preintegrate ns_timebase 1 2 (manager (1/20) [] PimC_default) =
     Inr (EmptyBuffer,
          \<lparr>valid = False, earliest_sec = 0, latest_sec = 1000000000000, pim = PimC_default\<rparr>,
          manager (1/20) [] PimC_default)"
  using Preintegrate_empty_buffer [of "manager (1/20) [] PimC_default" ns_timebase 1 2]
  by (simp add: manager_def ns_timebase_def)

text \<open>
  Claim C6 (as amended). After a successful first call, a second call with the same
  arguments and no push in between returns an invalid result, provided that the first
  call left the buffer empty, or that the buffer was in time order, \<open>from_time\<close> is not
  the sentinel and the window is longer than the allowed misalignment. The case of
  exactly one sample left in the buffer is left out: there the second call peeks the
  empty queue (claim C9).
\<close>

theorem Preintegrate_twice:
  assumes first: "Preintegrate c from_time to_time s = Inr (Success, r1, s1)"
    and cond: "queue s1 = []
               \<or> (sorted_wrt (\<lambda>x y. ConvertToSeconds c (timestamp x) \<le> ConvertToSeconds c (timestamp y)) (queue s)
                  \<and> from_time \<noteq> kMinSeconds c
                  \<and> allowed_misalignment_sec (params s) < to_time - from_time)"
    and len: "length (queue s1) \<noteq> 1"
  shows "\<exists>e r2 s2. Preintegrate c from_time to_time s1 = Inr (e, r2, s2) \<and> \<not> valid r2"
  using first
proof (cases rule: Preintegrate_Inr_cases)
  case (success x xs anchor q1 p1 imu' q2 p2 p3)
  have q: "queue s1 = q2" and P: "params s1 = params s" using success(9) by simp_all
  show ?thesis
  proof (cases q2)
    case Nil
    with q show ?thesis by (simp add: Preintegrate_def Empty_def invalid_result_def)
  next
    case (Cons y ys)
    with len q obtain z zs where ys: "ys = z # zs" by (cases ys) auto
    from cond q Cons have
      srt: "sorted_wrt (\<lambda>x y. ConvertToSeconds c (timestamp x) \<le> ConvertToSeconds c (timestamp y)) (queue s)"
      and conc: "from_time \<noteq> kMinSeconds c"
      and win: "allowed_misalignment_sec (params s) < to_time - from_time"
      by simp_all
    from anchor_loop_split [OF success(2)] obtain pre where
      pre: "x # xs = pre @ anchor # q1" by blast
    from integrate_loop_split [of c to_time anchor "ConvertToSeconds c (timestamp anchor)" q1 p1] success(4)
    obtain mid where mid: "q1 = mid @ q2" "q2 = [] \<or> to_time \<le> ConvertToSeconds c (timestamp (hd q2))"
      by auto
    from mid(2) Cons have ty: "to_time \<le> ConvertToSeconds c (timestamp y)" by simp
    have "queue s = (pre @ anchor # mid) @ y # z # zs"
      using success(1) pre mid(1) Cons ys by simp
    with srt have "sorted_wrt (\<lambda>x y. ConvertToSeconds c (timestamp x) \<le> ConvertToSeconds c (timestamp y)) (y # z # zs)"
      by (simp only: sorted_wrt_append)
    then have yz: "ConvertToSeconds c (timestamp y) \<le> ConvertToSeconds c (timestamp z)" by simp
    from success(3) conc have "0 \<le> allowed_misalignment_sec (params s)"
      by (auto simp: start_step_def offset_from_sec_def split: if_splits)
    with win ty yz have fz: "\<not> ConvertToSeconds c (timestamp z) \<le> from_time"
      and off: "allowed_misalignment_sec (params s) < \<bar>ConvertToSeconds c (timestamp y) - from_time\<bar>"
      by linarith+
    have a: "anchor_loop c from_time y (z # zs) = Inr (y, z # zs)"
      using fz by (simp add: anchor_loop_Cons)
    have st: "start_step c (params s1) from_time y (pim_acc s1) = None"
      using off conc P by (simp add: start_step_def offset_from_sec_def)
    have "Preintegrate c from_time to_time s1
            = Inr (StartMisaligned, invalid_result c, s1\<lparr>queue := z # zs\<rparr>)"
      using q Cons ys a st by (simp add: Preintegrate_def Empty_def Pop_def)
    then show ?thesis by (simp add: invalid_result_def)
  qed
qed simp_all

theorem Preintegrate_twice_witness:
  "Preintegrate ns_timebase (99/100) (111/100)
     (manager (1/20) [sample_at 1000000000, sample_at 1100000000, sample_at 1200000000,
                      sample_at 1300000000] PimC_default)
   = Inr (Success,
          \<lparr>valid = True, earliest_sec = 1, latest_sec = 11/10,
           pim = \<lparr>bias = zero_bias,
                  steps = [((0, 0, 1), (0, 0, 0), 1/100), ((0, 0, 1), (0, 0, 0), 1/10),
                           ((0, 0, 1), (0, 0, 0), 1/100)]\<rparr>\<rparr>,
          manager (1/20) [sample_at 1200000000, sample_at 1300000000] PimC_default)
   \<and> sorted_wrt (\<lambda>x y. ConvertToSeconds ns_timebase (timestamp x)
                          \<le> ConvertToSeconds ns_timebase (timestamp y))
        (queue (manager (1/20) [sample_at 1000000000, sample_at 1100000000, sample_at 1200000000,
                                sample_at 1300000000] PimC_default))
   \<and> (99/100::real) \<noteq> kMinSeconds ns_timebase
   \<and> allowed_misalignment_sec (params (manager (1/20) [sample_at 1000000000, sample_at 1100000000,
          sample_at 1200000000, sample_at 1300000000] PimC_default)) < 111/100 - 99/100
   \<and> length (queue (manager (1/20) [sample_at 1200000000, sample_at 1300000000] PimC_default)) \<noteq> 1
   \<and> (\<exists>e r2 s2.
         Preintegrate ns_timebase (99/100) (111/100)
           (manager (1/20) [sample_at 1200000000, sample_at 1300000000] PimC_default)
           = Inr (e, r2, s2) \<and> \<not> valid r2)"
proof -
  have srt: "sorted_wrt (\<lambda>x y. ConvertToSeconds ns_timebase (timestamp x)
                          \<le> ConvertToSeconds ns_timebase (timestamp y))
        (queue (manager (1/20) [sample_at 1000000000, sample_at 1100000000, sample_at 1200000000,
                                sample_at 1300000000] PimC_default))"
    by (simp add: manager_def ns_timebase_def sample_at_def)
  have conc: "(99/100::real) \<noteq> kMinSeconds ns_timebase"
    by (simp add: ns_timebase_def)
  have win: "allowed_misalignment_sec (params (manager (1/20) [sample_at 1000000000, sample_at 1100000000,
          sample_at 1200000000, sample_at 1300000000] PimC_default)) < 111/100 - 99/100"
    by (simp add: manager_def)
  have len: "length (queue (manager (1/20) [sample_at 1200000000, sample_at 1300000000] PimC_default)) \<noteq> 1"
    by (simp add: manager_def)
  from srt conc win have cond:
    "queue (manager (1/20) [sample_at 1200000000, sample_at 1300000000] PimC_default) = []
     \<or> (sorted_wrt (\<lambda>x y. ConvertToSeconds ns_timebase (timestamp x)
                          \<le> ConvertToSeconds ns_timebase (timestamp y))
        (queue (manager (1/20) [sample_at 1000000000, sample_at 1100000000, sample_at 1200000000,
                                sample_at 1300000000] PimC_default))
        \<and> (99/100::real) \<noteq> kMinSeconds ns_timebase
        \<and> allowed_misalignment_sec (params (manager (1/20) [sample_at 1000000000, sample_at 1100000000,
          sample_at 1200000000, sample_at 1300000000] PimC_default)) < 111/100 - 99/100)"
    by blast
  from Preintegrate_twice [OF long_window_first_call cond len] srt conc win len long_window_first_call
  show ?thesis by blast
qed

text \<open>
  Claim C6 as stated fails: samples at 1.00 s, 1.01 s and 1.02 s, tolerance 0.05 s, window
  from 0.995 s to 1.005 s. The first call succeeds on the sample at 1.00 s and leaves the
  other two; the second call, with the same arguments, finds the sample at 1.01 s within
  the tolerance of both bounds and succeeds too.
\<close>

theorem Preintegrate_twice_counterexample:
  "Preintegrate ns_timebase (199/200) (201/200)
     (manager (1/20) [sample_at 1000000000, sample_at 1010000000, sample_at 1020000000] PimC_default)
   = Inr (Success,
          \<lparr>valid = True, earliest_sec = 1, latest_sec = 1,
           pim = \<lparr>bias = zero_bias,
                  steps = [((0, 0, 1), (0, 0, 0), 1/200), ((0, 0, 1), (0, 0, 0), 1/200)]\<rparr>\<rparr>,
          manager (1/20) [sample_at 1010000000, sample_at 1020000000] PimC_default)
   \<and> Preintegrate ns_timebase (199/200) (201/200)
     (manager (1/20) [sample_at 1010000000, sample_at 1020000000] PimC_default)
   = Inr (Success,
          \<lparr>valid = True, earliest_sec = 101/100, latest_sec = 101/100,
           pim = \<lparr>bias = zero_bias,
                  steps = [((0, 0, 1), (0, 0, 0), 3/200), ((0, 0, 1), (0, 0, 0), 1/200)]\<rparr>\<rparr>,
          manager (1/20) [sample_at 1020000000] PimC_default)"
  by (simp add: eval_defs)

text \<open>
  Claim C9, at the inputs where the code departs from it. On every buffer of exactly one
  sample, whatever the arguments, \<open>Preintegrate\<close> pops the sample (line 48) and then
  calls \<open>PeekFront\<close> on the empty queue (line 49).
\<close>

theorem Preintegrate_single_sample:
  "Preintegrate c from_time to_time (s\<lparr>queue := [x]\<rparr>) = Inl PeekFront_on_empty"
  by (simp add: Preintegrate_def Empty_def Pop_def anchor_loop_Nil)

text \<open>
  Claim C10. A call that returns at line 83 (end misalignment) returns an invalid result
  and leaves a shorter buffer: the buffer on entry is what the anchor search dropped, then
  the anchor, then the samples before \<open>to_time\<close> that the integration loop popped, then
  the buffer left; the buffer left is empty or starts at or after \<open>to_time\<close>.
\<close>

theorem Preintegrate_end_misaligned_pops:
  assumes "Preintegrate c from_time to_time s = Inr (EndMisaligned, r, s')"
  shows "\<not> valid r
    \<and> (\<exists>pre anchor mid.
          queue s = pre @ anchor # mid @ queue s'
          \<and> anchor_loop c from_time (hd (queue s)) (tl (queue s)) = Inr (anchor, mid @ queue s')
          \<and> (\<forall>x\<in>set mid. ConvertToSeconds c (timestamp x) < to_time))
    \<and> (queue s' = [] \<or> to_time \<le> ConvertToSeconds c (timestamp (hd (queue s'))))
    \<and> length (queue s') < length (queue s)"
  using assms
proof (cases rule: Preintegrate_Inr_cases)
  case (endm x xs anchor q1 p1 imu' q2 p2)
  from anchor_loop_split [OF endm(2)] obtain pre where
    pre: "x # xs = pre @ anchor # q1" by blast
  from integrate_loop_split [of c to_time anchor "ConvertToSeconds c (timestamp anchor)" q1 p1] endm(4)
  obtain mid where
    mid: "q1 = mid @ q2" "\<forall>x\<in>set mid. ConvertToSeconds c (timestamp x) < to_time"
         "q2 = [] \<or> to_time \<le> ConvertToSeconds c (timestamp (hd q2))"
    by auto
  have q': "queue s' = q2" using endm by simp
  have "queue s = pre @ anchor # mid @ queue s'"
    using endm(1) pre mid(1) q' by simp
  moreover have "anchor_loop c from_time (hd (queue s)) (tl (queue s)) = Inr (anchor, mid @ queue s')"
    using endm(1,2) mid(1) q' by simp
  ultimately have "\<exists>pre anchor mid.
          queue s = pre @ anchor # mid @ queue s'
          \<and> anchor_loop c from_time (hd (queue s)) (tl (queue s)) = Inr (anchor, mid @ queue s')
          \<and> (\<forall>x\<in>set mid. ConvertToSeconds c (timestamp x) < to_time)"
    using mid(2) by blast
  moreover have "\<not> valid r" using endm by (simp add: invalid_result_def)
  moreover have "length (queue s') < length (queue s)"
    using \<open>queue s = pre @ anchor # mid @ queue s'\<close> by simp
  ultimately show ?thesis using mid(3) q' by simp
qed simp_all

theorem Preintegrate_end_misaligned_pops_witness:
  "Preintegrate ns_timebase (199/200) 2
     (manager (1/20) [sample_at 1000000000, sample_at 1010000000, sample_at 1020000000] PimC_default)
   = Inr (EndMisaligned, invalid_result ns_timebase, manager (1/20) [] PimC_default)
   \<and> \<not> valid (invalid_result ns_timebase)
   \<and> length (queue (manager (1/20) [] PimC_default))
       < length (queue (manager (1/20) [sample_at 1000000000, sample_at 1010000000, sample_at 1020000000] PimC_default))"
  using Preintegrate_end_misaligned_pops [OF late_window_call] late_window_call
  by simp

section \<open>Properties of the Levenberg-Marquardt iteration\<close>

declare lm_trace.simps [simp del]

lemma lm_trace_hd: "\<exists>rest. lm_trace P st = st # rest"
  by (subst lm_trace.simps) (simp add: Let_def)

lemma lm_trace_le:
  "s \<in> set (lm_trace P st) \<Longrightarrow> total_error P (pose s) \<le> total_error P (pose st)"
proof (induction P st rule: lm_trace.induct)
  case (1 P st)
  let ?cand = "propose P (damping st) (pose st)"
  let ?acc = "\<lparr>pose = ?cand, damping = decrease_damping P (damping st), iters = iters st + 1\<rparr>"
  let ?rej = "\<lparr>pose = pose st, damping = increase_damping P (damping st), iters = iters st + 1\<rparr>"
  show ?case
  proof (cases "max_iters P \<le> iters st")
    case True
    with "1.prems" show ?thesis by (subst (asm) lm_trace.simps) simp
  next
    case False
    show ?thesis
    proof (cases "accepts P (pose st) ?cand")
      case acc: True
      then have le: "total_error P ?cand \<le> total_error P (pose st)"
        by (auto simp: accepts_def)
      show ?thesis
      proof (cases "total_error P ?cand < min_error P
             \<or> \<bar>total_error P (pose st) - total_error P ?cand\<bar> < min_error_delta P")
        case True
        with False acc "1.prems" have "s = st \<or> s = ?acc"
          by (subst (asm) lm_trace.simps) (simp add: Let_def)
        with le show ?thesis by auto
      next
        case cont: False
        with False acc "1.prems" have "s = st \<or> s \<in> set (lm_trace P ?acc)"
          by (subst (asm) lm_trace.simps) (simp add: Let_def)
        then show ?thesis
        proof
          assume "s = st" then show ?thesis by simp
        next
          assume "s \<in> set (lm_trace P ?acc)"
          from "1.IH"(1) [OF False refl acc refl cont this] le show ?thesis by simp
        qed
      qed
    next
      case rej: False
      with False "1.prems" have "s = st \<or> s \<in> set (lm_trace P ?rej)"
        by (subst (asm) lm_trace.simps) (simp add: Let_def)
      then show ?thesis
      proof
        assume "s = st" then show ?thesis by simp
      next
        assume "s \<in> set (lm_trace P ?rej)"
        from "1.IH"(2) [OF False refl rej this] show ?thesis by simp
      qed
    qed
  qed
qed

lemma successively_hd_Cons:
  "xs = x' # rest \<Longrightarrow> successively R (x # xs) = (R x x' \<and> successively R xs)"
  by simp

lemma overshooting_trace:
  "lm_trace overshooting_problem \<lparr>pose = 2, damping = 0, iters = 0\<rparr>
   = [\<lparr>pose = 2, damping = 0, iters = 0\<rparr>,
      \<lparr>pose = 2, damping = 1, iters = 1\<rparr>,
      \<lparr>pose = -1, damping = 1/2, iters = 2\<rparr>,
      \<lparr>pose = -1, damping = 2, iters = 3\<rparr>]"
  by (simp add: lm_trace.simps overshooting_problem_def accepts_def Let_def)

text \<open>
  Claim C7. In every run of the Levenberg-Marquardt iteration, each iteration either
  accepts the proposed step, and then the pose is the proposed pose, the total error has
  not increased and the damping is decreased; or the proposed step does not decrease the
  total error, and then the pose is left unchanged and the next iteration retries with the
  damping increased. So the total error of the pose never increases from a state of the
  run to a later one.
\<close>

theorem lm_never_increases:
  "successively
     (\<lambda>s s'.
        (pose s' = propose P (damping s) (pose s)
           \<and> total_error P (pose s') \<le> total_error P (pose s)
           \<and> damping s' = decrease_damping P (damping s))
        \<or> (total_error P (pose s) \<le> total_error P (propose P (damping s) (pose s))
           \<and> pose s' = pose s
           \<and> damping s' = increase_damping P (damping s)))
     (lm_trace P st)
   \<and> sorted_wrt (\<lambda>s s'. total_error P (pose s') \<le> total_error P (pose s)) (lm_trace P st)"
proof (induction P st rule: lm_trace.induct)
  case (1 P st)
  let ?R = "\<lambda>s s'.
        (pose s' = propose P (damping s) (pose s)
           \<and> total_error P (pose s') \<le> total_error P (pose s)
           \<and> damping s' = decrease_damping P (damping s))
        \<or> (total_error P (pose s) \<le> total_error P (propose P (damping s) (pose s))
           \<and> pose s' = pose s
           \<and> damping s' = increase_damping P (damping s))"
  let ?S = "\<lambda>s s'. total_error P (pose s') \<le> total_error P (pose s)"
  let ?cand = "propose P (damping st) (pose st)"
  let ?acc = "\<lparr>pose = ?cand, damping = decrease_damping P (damping st), iters = iters st + 1\<rparr>"
  let ?rej = "\<lparr>pose = pose st, damping = increase_damping P (damping st), iters = iters st + 1\<rparr>"
  show ?case
  proof (cases "max_iters P \<le> iters st")
    case True
    then have "lm_trace P st = [st]" by (subst lm_trace.simps) simp
    then show ?thesis by simp
  next
    case False
    show ?thesis
    proof (cases "accepts P (pose st) ?cand")
      case acc: True
      then have le: "total_error P ?cand \<le> total_error P (pose st)"
        by (auto simp: accepts_def)
      then have step: "?R st ?acc" by simp
      show ?thesis
      proof (cases "total_error P ?cand < min_error P
             \<or> \<bar>total_error P (pose st) - total_error P ?cand\<bar> < min_error_delta P")
        case True
        with False acc have "lm_trace P st = [st, ?acc]"
          by (subst lm_trace.simps) (simp add: Let_def)
        with le show ?thesis by simp
      next
        case cont: False
        with False acc have tr: "lm_trace P st = st # lm_trace P ?acc"
          by (subst lm_trace.simps) (simp add: Let_def)
        obtain rest where hd: "lm_trace P ?acc = ?acc # rest"
          using lm_trace_hd by blast
        from "1.IH"(1) [OF False refl acc refl cont] have
          ih: "successively ?R (lm_trace P ?acc)" "sorted_wrt ?S (lm_trace P ?acc)"
          by simp_all
        have "successively ?R (st # lm_trace P ?acc)"
          using ih(1) step by (simp only: successively_hd_Cons [OF hd])
        moreover have "\<forall>s\<in>set (lm_trace P ?acc). ?S st s"
          using lm_trace_le [of _ P ?acc] le by fastforce
        ultimately show ?thesis using ih(2) tr by simp
      qed
    next
      case rej: False
      then have ge: "total_error P (pose st) \<le> total_error P ?cand"
        by (auto simp: accepts_def)
      then have step: "?R st ?rej" by simp
      from False rej have tr: "lm_trace P st = st # lm_trace P ?rej"
        by (subst lm_trace.simps) (simp add: Let_def)
      obtain rest where hd: "lm_trace P ?rej = ?rej # rest"
        using lm_trace_hd by blast
      from "1.IH"(2) [OF False refl rej] have
        ih: "successively ?R (lm_trace P ?rej)" "sorted_wrt ?S (lm_trace P ?rej)"
        by simp_all
      have "successively ?R (st # lm_trace P ?rej)"
        using ih(1) step by (simp only: successively_hd_Cons [OF hd])
      moreover have "\<forall>s\<in>set (lm_trace P ?rej). ?S st s"
        using lm_trace_le [of _ P ?rej] by fastforce
      ultimately show ?thesis using ih(2) tr by simp
    qed
  qed
qed

text \<open>
  A run of three iterations: the first step overshoots and is rejected, the second is
  accepted, the third leaves the error equal and is rejected.
\<close>

theorem lm_never_increases_witness:
  "lm_trace overshooting_problem \<lparr>pose = 2, damping = 0, iters = 0\<rparr>
   = [\<lparr>pose = 2, damping = 0, iters = 0\<rparr>,
      \<lparr>pose = 2, damping = 1, iters = 1\<rparr>,
      \<lparr>pose = -1, damping = 1/2, iters = 2\<rparr>,
      \<lparr>pose = -1, damping = 2, iters = 3\<rparr>]
   \<and> sorted_wrt (\<lambda>s s'. total_error overshooting_problem (pose s')
                           \<le> total_error overshooting_problem (pose s))
        [\<lparr>pose = 2, damping = 0, iters = 0\<rparr>,
         \<lparr>pose = 2, damping = 1, iters = 1\<rparr>,
         \<lparr>pose = -1, damping = 1/2, iters = 2\<rparr>,
         \<lparr>pose = -1, damping = 2, iters = 3\<rparr>]
   \<and> OptimizePoseLevenbergMarquardt overshooting_problem 2 0 = (-1, 1, 3)"
  using lm_never_increases [of overshooting_problem "\<lparr>pose = 2, damping = 0, iters = 0\<rparr>"]
    overshooting_trace
  by (simp add: OptimizePoseLevenbergMarquardt_def overshooting_problem_def)

end
